theory Spec2Isabelle
  imports Main "HOL-Library.Word" "HOL-Library.Monad_Syntax"
begin

unbundle bit_operations_syntax

section \<open>The snowflake ID generator of snowflake.go\<close>

text \<open>
  Go's \<open>int64\<close> is a 64-bit word: \<open>+\<close> and \<open>-\<close> wrap, \<open><<\<close> is \<open>push_bit\<close> and drops
  the bits shifted out, \<open>|\<close> is \<open>OR\<close>, and the comparisons of the source are the signed
  ones (\<open><s\<close>, \<open>\<le>s\<close>).
\<close>

type_synonym int64 = "64 word"

subsection \<open>Constants\<close>

definition sequenceIDBits :: nat where
  "sequenceIDBits = 12"

definition machineIDBits :: nat where
  "machineIDBits = 5"

definition idcIDBits :: nat where
  "idcIDBits = 5"

definition machineIDShift :: nat where
  "machineIDShift = sequenceIDBits"

definition idcIDShift :: nat where
  "idcIDShift = machineIDBits + machineIDShift"

definition unixMilliShift :: nat where
  "unixMilliShift = idcIDBits + idcIDShift"

definition maxSequenceID :: int64 where
  "maxSequenceID = NOT (push_bit sequenceIDBits (- 1))"

definition maxMachineID :: int64 where
  "maxMachineID = NOT (push_bit machineIDBits (- 1))"

definition maxIDCID :: int64 where
  "maxIDCID = NOT (push_bit idcIDBits (- 1))"

definition epoch :: int64 where
  "epoch = 1669046400000"

subsection \<open>Errors and the generator\<close>

datatype error = ErrInvaildIDCID | ErrInvaildMachineID | ErrClockBack

text \<open>
  The struct \<open>IDGenerator\<close>. Its mutex serialises the calls of \<open>Generate\<close>; the model is
  the sequential behaviour of one call after the other, so the mutex has no field here.
\<close>

record IDGenerator =
  lastMilli :: int64
  sequenceID :: int64
  machineID :: int64
  IDCID :: int64

text \<open>\<open>NewIDGenerator\<close> returns \<open>(nil, err)\<close> or \<open>(&IDGenerator{...}, nil)\<close>.\<close>

definition NewIDGenerator :: "int64 \<Rightarrow> int64 \<Rightarrow> error + IDGenerator" where
  "NewIDGenerator idc mach =
     (if maxIDCID <s idc \<or> idc <s 0 then Inl ErrInvaildIDCID
      else if maxMachineID <s mach \<or> mach <s 0 then Inl ErrInvaildMachineID
      else Inr \<lparr>lastMilli = - 1, sequenceID = 0, machineID = mach, IDCID = idc\<rparr>)"

subsection \<open>The clock\<close>

text \<open>
  \<open>g.now()\<close> is \<open>time.Now().UnixMilli()\<close>: an input from the environment. The clock is the
  sequence of its readings, and the number of readings taken so far is threaded through
  the calls: the \<open>t\<close>-th read of the program returns \<open>clk t\<close>.
\<close>

type_synonym clock = "nat \<Rightarrow> int64"

definition now :: "clock \<Rightarrow> nat \<Rightarrow> int64 \<times> nat" where
  "now clk t = (clk t, Suc t)"

text \<open>
  The loop of \<open>tilNextMilli\<close> has no bound: on a clock that never passes \<open>lastMilli\<close> it
  does not return, which is the value \<open>None\<close>.
\<close>

partial_function (option) tilNextMilli ::
  "clock \<Rightarrow> IDGenerator \<Rightarrow> int64 \<Rightarrow> nat \<Rightarrow> (int64 \<times> nat) option" where
  "tilNextMilli clk g n t =
     (if n \<le>s lastMilli g
      then (case now clk t of (n', t') \<Rightarrow> tilNextMilli clk g n' t')
      else Some (n, t))"

subsection \<open>Generate\<close>

text \<open>
  The result is the pair \<open>(int64, error)\<close> of the source (\<open>None\<close> for \<open>nil\<close>), with the
  generator after the call and the number of clock readings taken. \<open>None\<close> is a call
  that does not return.
\<close>

definition Generate ::
  "clock \<Rightarrow> nat \<Rightarrow> IDGenerator \<Rightarrow> ((int64 \<times> error option) \<times> IDGenerator \<times> nat) option" where
  "Generate clk t g =
     (case now clk t of (n, t) \<Rightarrow>
        if n <s lastMilli g then Some ((- 1, Some ErrClockBack), g, t)
        else do {
          (n, g, t) \<leftarrow>
            (if n = lastMilli g then
               (let g = g\<lparr>sequenceID := sequenceID g + 1\<rparr> in
                if maxSequenceID <s sequenceID g then do {
                  (n, t) \<leftarrow> tilNextMilli clk g n t;
                  Some (n, g\<lparr>sequenceID := 0\<rparr>, t)
                } else Some (n, g, t))
             else if lastMilli g <s n then Some (n, g\<lparr>sequenceID := 0\<rparr>, t)
             else Some (n, g, t));
          let g = g\<lparr>lastMilli := n\<rparr>;
          Some ((push_bit unixMilliShift (n - epoch)
                   OR push_bit idcIDShift (IDCID g)
                   OR push_bit machineIDShift (machineID g)
                   OR sequenceID g, None), g, t)
        })"

subsection \<open>Notions used in the statements\<close>

text \<open>
  The expression \<open>Generate\<close> returns in its last line, as a function of the millisecond
  and of the generator it is computed from.
\<close>

definition assembleID :: "int64 \<Rightarrow> IDGenerator \<Rightarrow> int64" where
  "assembleID n g =
     push_bit unixMilliShift (n - epoch)
       OR push_bit idcIDShift (IDCID g)
       OR push_bit machineIDShift (machineID g)
       OR sequenceID g"

text \<open>
  The identities and the sequence number lie within their fields. \<open>NewIDGenerator\<close>
  returns such a generator and \<open>Generate\<close> keeps it so.
\<close>

definition generator_ok :: "IDGenerator \<Rightarrow> bool" where
  "generator_ok g \<longleftrightarrow>
     0 \<le>s IDCID g \<and> IDCID g \<le>s maxIDCID \<and>
     0 \<le>s machineID g \<and> machineID g \<le>s maxMachineID \<and>
     0 \<le>s sequenceID g \<and> sequenceID g \<le>s maxSequenceID"

text \<open>
  The milliseconds elapsed since \<open>epoch\<close> fit the 41 bits of the timestamp field;
  and, weaker, shifting them left by 22 bits does not overflow the 64-bit integer.
\<close>

definition timestamp_fits :: "int64 \<Rightarrow> bool" where
  "timestamp_fits n \<longleftrightarrow> 0 \<le> sint n - sint epoch \<and> sint n - sint epoch < 2 ^ 41"

definition shift_safe :: "int64 \<Rightarrow> bool" where
  "shift_safe n \<longleftrightarrow> - (2 ^ 41) \<le> sint n - sint epoch \<and> sint n - sint epoch < 2 ^ 41"

text \<open>
  \<open>k\<close> successive calls of \<open>Generate\<close> on one generator, from the \<open>t\<close>-th clock reading
  on: the IDs of the calls that returned no error, in the order of the calls.
\<close>

fun calls :: "clock \<Rightarrow> nat \<Rightarrow> IDGenerator \<Rightarrow> nat \<Rightarrow> int64 list option" where
  "calls clk t g 0 = Some []"
| "calls clk t g (Suc k) =
     (case Generate clk t g of
        None \<Rightarrow> None
      | Some ((x, err), g', t') \<Rightarrow>
          (case calls clk t' g' k of
             None \<Rightarrow> None
           | Some xs \<Rightarrow> Some (if err = None then x # xs else xs)))"

text \<open>A clock whose first reading is \<open>a\<close> and whose every later reading is \<open>b\<close>.\<close>

definition stepClock :: "int64 \<Rightarrow> int64 \<Rightarrow> clock" where
  "stepClock a b i = (if i = 0 then a else b)"

section \<open>Auxiliary facts\<close>

subsection \<open>The values of the constants\<close>

lemma maxSequenceID_eq: "maxSequenceID = 4095"
  by (simp add: maxSequenceID_def sequenceIDBits_def mask_eq_exp_minus_1)

lemma maxMachineID_eq: "maxMachineID = 31"
  by (simp add: maxMachineID_def machineIDBits_def mask_eq_exp_minus_1)

lemma maxIDCID_eq: "maxIDCID = 31"
  by (simp add: maxIDCID_def idcIDBits_def mask_eq_exp_minus_1)

lemma shifts_eq: "machineIDShift = 12" "idcIDShift = 17" "unixMilliShift = 22"
  by (simp_all add: machineIDShift_def idcIDShift_def unixMilliShift_def sequenceIDBits_def
      machineIDBits_def idcIDBits_def)

subsection \<open>The loop of tilNextMilli\<close>

text \<open>
  The loop returns the first reading past \<open>lastMilli\<close>; what it returns is past
  \<open>lastMilli\<close>; and it does not return when no reading is.
\<close>

lemma tilNextMilli_first:
  "n \<le>s lastMilli g \<Longrightarrow> \<forall>j<k. clk (t + j) \<le>s lastMilli g \<Longrightarrow> lastMilli g <s clk (t + k)
   \<Longrightarrow> tilNextMilli clk g n t = Some (clk (t + k), Suc (t + k))"
proof (induction k arbitrary: n t)
  case 0
  then have "\<not> clk t \<le>s lastMilli g" by (simp add: signed.not_le)
  with 0 show ?case
    by (simp add: tilNextMilli.simps [of clk g n t] tilNextMilli.simps [of clk g "clk t" "Suc t"]
        now_def)
next
  case (Suc k)
  have a: "clk t \<le>s lastMilli g" using Suc.prems(2) by (metis add.right_neutral zero_less_Suc)
  have b: "\<forall>j<k. clk (Suc t + j) \<le>s lastMilli g" using Suc.prems(2) by auto
  have c: "lastMilli g <s clk (Suc t + k)" using Suc.prems(3) by simp
  have "tilNextMilli clk g (clk t) (Suc t) = Some (clk (Suc t + k), Suc (Suc t + k))"
    by (rule Suc.IH [OF a b c])
  with Suc.prems(1) show ?case
    by (simp add: tilNextMilli.simps [of clk g n t] now_def)
qed

lemma tilNextMilli_Some:
  "tilNextMilli clk g n t = Some r \<Longrightarrow>
     lastMilli g <s fst r \<and> (r = (n, t) \<or> t < snd r \<and> fst r = clk (snd r - 1))"
proof (induction rule: tilNextMilli.raw_induct [rotated 1, consumes 1])
  case (1 f clk g n t r)
  show ?case
  proof (cases "n \<le>s lastMilli g")
    case True
    with 1(2) have "f clk g (clk t) (Suc t) = Some r" by (simp add: now_def)
    from 1(1) [OF this] show ?thesis by auto
  next
    case False
    with 1(2) show ?thesis by (auto simp: signed.not_le)
  qed
qed

lemma tilNextMilli_None:
  assumes "n \<le>s lastMilli g" and "\<forall>j. clk (t + j) \<le>s lastMilli g"
  shows "tilNextMilli clk g n t = None"
proof (rule ccontr)
  assume "tilNextMilli clk g n t \<noteq> None"
  then obtain r where r: "tilNextMilli clk g n t = Some r" by auto
  from tilNextMilli_Some [OF r]
  have gt: "lastMilli g <s fst r" and alt: "r = (n, t) \<or> t < snd r \<and> fst r = clk (snd r - 1)"
    by simp_all
  from alt show False
  proof
    assume "r = (n, t)"
    with gt assms(1) show False by (simp add: signed.not_le [symmetric])
  next
    assume h: "t < snd r \<and> fst r = clk (snd r - 1)"
    then have "snd r - 1 = t + (snd r - 1 - t)" by simp
    with assms(2) have "clk (snd r - 1) \<le>s lastMilli g" by metis
    with gt h show False by (simp add: signed.not_le [symmetric])
  qed
qed

subsection \<open>Words, bits and the packed sum\<close>

lemma sint_nonneg_uint:
  fixes x :: int64
  assumes "0 \<le>s x"
  shows "sint x = uint x"
proof -
  from assms have "0 \<le> sint x" by (simp add: word_sle_eq)
  moreover have "sint x < 2 ^ 64" using sint_lt [of x] by simp
  ultimately have "take_bit 64 (sint x) = sint x" by (simp add: take_bit_int_eq_self)
  then show ?thesis using uint_sint [of x] by simp
qed

lemma take_bit_small:
  fixes x :: int64
  assumes "uint x < 2 ^ k"
  shows "take_bit k x = x"
  using assms
  by (metis take_bit_int_eq_self_iff unsigned_greater_eq
    unsigned_take_bit_eq unsigned_word_eqI)

lemma bounded_field:
  fixes x m :: int64
  assumes "0 \<le>s x" and "x \<le>s m" and "0 \<le>s m"
  shows "uint x \<le> uint m"
  using assms sint_nonneg_uint [of x] sint_nonneg_uint [of m] signed.order_trans [of 0 x m]
  by (simp add: word_sle_eq)

lemma asm_bits:
  fixes x i m s :: int64
  shows "push_bit 22 x OR push_bit 17 (take_bit 5 i) OR push_bit 12 (take_bit 5 m) OR take_bit 12 s
       = push_bit 22 x + push_bit 17 (take_bit 5 i) + push_bit 12 (take_bit 5 m) + take_bit 12 s"
proof -
  have 1: "push_bit 12 (take_bit 5 m) OR take_bit 12 s = push_bit 12 (take_bit 5 m) + take_bit 12 s"
    by (rule disjunctive_add [symmetric]) (auto simp: bit_simps)
  have 2: "push_bit 17 (take_bit 5 i) OR (push_bit 12 (take_bit 5 m) OR take_bit 12 s)
      = push_bit 17 (take_bit 5 i) + (push_bit 12 (take_bit 5 m) OR take_bit 12 s)"
    by (rule disjunctive_add [symmetric]) (auto simp: bit_simps)
  have 3: "push_bit 22 x OR (push_bit 17 (take_bit 5 i) OR (push_bit 12 (take_bit 5 m) OR take_bit 12 s))
      = push_bit 22 x + (push_bit 17 (take_bit 5 i) OR (push_bit 12 (take_bit 5 m) OR take_bit 12 s))"
    by (rule disjunctive_add [symmetric]) (auto simp: bit_simps)
  show ?thesis
    apply (subst 3)
    apply (subst 2)
    apply (subst 1)
    apply (simp only: add.assoc)
    done
qed

lemma pack_bounds:
  fixes d a b c :: int
  assumes "- (2 ^ 41) \<le> d" "d < 2 ^ 41" "0 \<le> a" "a < 2 ^ 5" "0 \<le> b" "b < 2 ^ 5"
    "0 \<le> c" "c < 2 ^ 12"
  shows "- (2 ^ 63) \<le> d * 2 ^ 22 + a * 2 ^ 17 + b * 2 ^ 12 + c"
    and "d * 2 ^ 22 + a * 2 ^ 17 + b * 2 ^ 12 + c < 2 ^ 63"
  using assms by simp_all

lemma sint_of_int_fits:
  "- (2 ^ 63) \<le> k \<Longrightarrow> k < 2 ^ 63 \<Longrightarrow> sint (word_of_int k :: int64) = k"
  by (simp add: sint_sbintrunc' signed_take_bit_int_eq_self)

lemma asm_sint:
  fixes n e i m s :: int64
  assumes r: "- (2 ^ 41) \<le> sint n - sint e" "sint n - sint e < 2 ^ 41"
  shows "sint (push_bit 22 (n - e) OR push_bit 17 (take_bit 5 i) OR push_bit 12 (take_bit 5 m) OR take_bit 12 s)
       = (sint n - sint e) * 2 ^ 22 + uint (take_bit 5 i) * 2 ^ 17 + uint (take_bit 5 m) * 2 ^ 12 + uint (take_bit 12 s)"
proof -
  let ?k = "(sint n - sint e) * 2 ^ 22 + uint (take_bit 5 i) * 2 ^ 17 + uint (take_bit 5 m) * 2 ^ 12 + uint (take_bit 12 s)"
  have bi: "0 \<le> uint (take_bit 5 i)" "uint (take_bit 5 i) < 2 ^ 5"
    using take_bit_int_less_exp [of 5 "uint i"] take_bit_int_less_exp [of 5 "uint m"]
      take_bit_int_less_exp [of 12 "uint s"]
    by (simp_all add: unsigned_take_bit_eq)
  have bm: "0 \<le> uint (take_bit 5 m)" "uint (take_bit 5 m) < 2 ^ 5"
    using take_bit_int_less_exp [of 5 "uint i"] take_bit_int_less_exp [of 5 "uint m"]
      take_bit_int_less_exp [of 12 "uint s"]
    by (simp_all add: unsigned_take_bit_eq)
  have bs: "0 \<le> uint (take_bit 12 s)" "uint (take_bit 12 s) < 2 ^ 12"
    using take_bit_int_less_exp [of 5 "uint i"] take_bit_int_less_exp [of 5 "uint m"]
      take_bit_int_less_exp [of 12 "uint s"]
    by (simp_all add: unsigned_take_bit_eq)
  have w: "push_bit 22 (n - e) + push_bit 17 (take_bit 5 i) + push_bit 12 (take_bit 5 m) + take_bit 12 s
      = (word_of_int ?k :: int64)"
    by (simp add: push_bit_eq_mult)
  have lo: "- (2 ^ 63) \<le> ?k" using r bi bm bs by (intro pack_bounds)
  have hi: "?k < 2 ^ 63" using r bi bm bs by (intro pack_bounds)
  have "sint (word_of_int ?k :: int64) = ?k"
    using lo hi by (rule sint_of_int_fits)
  then show ?thesis by (simp only: asm_bits w)
qed

subsection \<open>The branches of Generate\<close>

lemma Generate_back:
  "clk t <s lastMilli g \<Longrightarrow> Generate clk t g = Some ((- 1, Some ErrClockBack), g, Suc t)"
  by (simp add: Generate_def now_def)

lemma Generate_same:
  assumes "clk t = lastMilli g" and "\<not> maxSequenceID <s sequenceID g + 1"
  shows "Generate clk t g =
     Some ((assembleID (clk t) (g\<lparr>sequenceID := sequenceID g + 1\<rparr>), None),
           g\<lparr>sequenceID := sequenceID g + 1, lastMilli := clk t\<rparr>, Suc t)"
  using assms by (simp add: Generate_def now_def assembleID_def)

lemma Generate_wait:
  assumes "clk t = lastMilli g" and "maxSequenceID <s sequenceID g + 1"
  shows "Generate clk t g =
     (case tilNextMilli clk (g\<lparr>sequenceID := sequenceID g + 1\<rparr>) (clk t) (Suc t) of
        None \<Rightarrow> None
      | Some (n, t') \<Rightarrow>
          Some ((assembleID n (g\<lparr>sequenceID := 0\<rparr>), None),
                g\<lparr>sequenceID := 0, lastMilli := n\<rparr>, t'))"
  using assms by (simp add: Generate_def now_def assembleID_def split: option.splits)

lemma Generate_new:
  assumes "lastMilli g <s clk t"
  shows "Generate clk t g =
     Some ((assembleID (clk t) (g\<lparr>sequenceID := 0\<rparr>), None),
           g\<lparr>sequenceID := 0, lastMilli := clk t\<rparr>, Suc t)"
proof -
  from assms have "\<not> clk t <s lastMilli g" "clk t \<noteq> lastMilli g"
    by (auto simp: signed.less_asym)
  with assms show ?thesis by (simp add: Generate_def now_def assembleID_def)
qed

lemma field_bounds:
  assumes "generator_ok g"
  shows "take_bit 5 (IDCID g) = IDCID g" "take_bit 5 (machineID g) = machineID g"
    "take_bit 12 (sequenceID g) = sequenceID g"
proof -
  have "uint (IDCID g) \<le> uint (31 :: int64)"
    using assms by (intro bounded_field) (simp_all add: generator_ok_def maxIDCID_eq word_sle_eq)
  then show "take_bit 5 (IDCID g) = IDCID g" by (intro take_bit_small) simp
  have "uint (machineID g) \<le> uint (31 :: int64)"
    using assms by (intro bounded_field) (simp_all add: generator_ok_def maxMachineID_eq word_sle_eq)
  then show "take_bit 5 (machineID g) = machineID g" by (intro take_bit_small) simp
  have "uint (sequenceID g) \<le> uint (4095 :: int64)"
    using assms by (intro bounded_field) (simp_all add: generator_ok_def maxSequenceID_eq word_sle_eq)
  then show "take_bit 12 (sequenceID g) = sequenceID g" by (intro take_bit_small) simp
qed

lemma seq_succ_ok:
  fixes s :: int64
  assumes "0 \<le>s s" and "s \<le>s 4095" and "\<not> 4095 <s s + 1"
  shows "sint (s + 1) = sint s + 1" and "0 \<le>s s + 1" and "s + 1 \<le>s 4095"
proof -
  from assms(1,2) have b: "0 \<le> sint s" "sint s \<le> 4095" by (simp_all add: word_sle_eq)
  then show e: "sint (s + 1) = sint s + 1"
    by (simp add: sint_word_ariths signed_take_bit_int_eq_self)
  with b show "0 \<le>s s + 1" by (simp add: word_sle_eq)
  from assms(3) show "s + 1 \<le>s 4095" by (simp add: signed.not_less)
qed

lemma sint_assembleID:
  assumes "generator_ok g" and "shift_safe n"
  shows "sint (assembleID n g) =
     (sint n - sint epoch) * 2 ^ 22 + uint (IDCID g) * 2 ^ 17 + uint (machineID g) * 2 ^ 12
       + sint (sequenceID g)"
proof -
  from assms(1) have s: "sint (sequenceID g) = uint (sequenceID g)"
    by (intro sint_nonneg_uint) (simp add: generator_ok_def)
  have "assembleID n g = push_bit 22 (n - epoch) OR push_bit 17 (take_bit 5 (IDCID g))
      OR push_bit 12 (take_bit 5 (machineID g)) OR take_bit 12 (sequenceID g)"
    by (simp add: assembleID_def shifts_eq field_bounds [OF assms(1)])
  then show ?thesis
    using assms(2) asm_sint [of n epoch "IDCID g" "machineID g" "sequenceID g"]
    by (simp add: shift_safe_def field_bounds [OF assms(1)] s)
qed

lemma Generate_success:
  assumes ok: "generator_ok g" and G: "Generate clk t g = Some ((x, None), g', t')"
  shows "generator_ok g'" and "x = assembleID (lastMilli g') g'"
    and "IDCID g' = IDCID g" and "machineID g' = machineID g"
    and "\<exists>i. lastMilli g' = clk i"
    and "lastMilli g <s lastMilli g' \<or>
         lastMilli g' = lastMilli g \<and> sint (sequenceID g') = sint (sequenceID g) + 1"
proof -
  have z: "(0::int64) \<le>s 0" "(0::int64) \<le>s maxSequenceID"
    by (simp_all add: maxSequenceID_eq word_sle_eq)
  consider (regress) "clk t <s lastMilli g"
    | (same) "clk t = lastMilli g" "\<not> maxSequenceID <s sequenceID g + 1"
    | (wait) "clk t = lastMilli g" "maxSequenceID <s sequenceID g + 1"
    | (new) "lastMilli g <s clk t"
    using signed.less_linear by blast
  then have "generator_ok g' \<and> x = assembleID (lastMilli g') g' \<and>
      IDCID g' = IDCID g \<and> machineID g' = machineID g \<and> (\<exists>i. lastMilli g' = clk i) \<and>
      (lastMilli g <s lastMilli g' \<or>
         lastMilli g' = lastMilli g \<and> sint (sequenceID g') = sint (sequenceID g) + 1)"
  proof cases
    case regress
    with G show ?thesis by (simp add: Generate_back)
  next
    case same
    from ok same(2) have s: "sint (sequenceID g + 1) = sint (sequenceID g) + 1"
      "0 \<le>s sequenceID g + 1" "sequenceID g + 1 \<le>s maxSequenceID"
      by (simp_all add: seq_succ_ok generator_ok_def maxSequenceID_eq)
    have "Generate clk t g =
        Some ((assembleID (clk t) (g\<lparr>sequenceID := sequenceID g + 1\<rparr>), None),
              g\<lparr>sequenceID := sequenceID g + 1, lastMilli := clk t\<rparr>, Suc t)"
      using same by (rule Generate_same)
    with G have g': "g' = g\<lparr>sequenceID := sequenceID g + 1, lastMilli := clk t\<rparr>"
      and x: "x = assembleID (clk t) (g\<lparr>sequenceID := sequenceID g + 1\<rparr>)"
      by simp_all
    from ok s have "generator_ok g'" by (simp add: g' generator_ok_def)
    moreover have "x = assembleID (lastMilli g') g'" by (simp add: x g' assembleID_def)
    moreover have "\<exists>i. lastMilli g' = clk i" by (rule exI [of _ t]) (simp add: g')
    moreover have "lastMilli g' = lastMilli g \<and> sint (sequenceID g') = sint (sequenceID g) + 1"
      using s(1) same(1) by (simp add: g')
    ultimately show ?thesis by (simp add: g')
  next
    case wait
    have "Generate clk t g =
       (case tilNextMilli clk (g\<lparr>sequenceID := sequenceID g + 1\<rparr>) (clk t) (Suc t) of
          None \<Rightarrow> None
        | Some (n, t') \<Rightarrow>
            Some ((assembleID n (g\<lparr>sequenceID := 0\<rparr>), None),
                  g\<lparr>sequenceID := 0, lastMilli := n\<rparr>, t'))"
      using wait by (rule Generate_wait)
    with G obtain n where T: "tilNextMilli clk (g\<lparr>sequenceID := sequenceID g + 1\<rparr>) (clk t) (Suc t) = Some (n, t')"
      and g': "g' = g\<lparr>sequenceID := 0, lastMilli := n\<rparr>"
      and x: "x = assembleID n (g\<lparr>sequenceID := 0\<rparr>)"
      by (auto split: option.splits)
    from tilNextMilli_Some [OF T] have gt: "lastMilli g <s n"
      and src: "n = clk t \<or> n = clk (t' - 1)" by auto
    from ok z have "generator_ok g'" by (simp add: g' generator_ok_def)
    moreover have "x = assembleID (lastMilli g') g'" by (simp add: x g' assembleID_def)
    moreover from src have "\<exists>i. lastMilli g' = clk i" by (auto simp: g')
    moreover have "lastMilli g <s lastMilli g'" using gt by (simp add: g')
    ultimately show ?thesis by (simp add: g')
  next
    case new
    from G have g': "g' = g\<lparr>sequenceID := 0, lastMilli := clk t\<rparr>"
      and x: "x = assembleID (clk t) (g\<lparr>sequenceID := 0\<rparr>)"
      using Generate_new [of g clk t, OF new] by simp_all
    from ok z have "generator_ok g'" by (simp add: g' generator_ok_def)
    moreover have "x = assembleID (lastMilli g') g'" by (simp add: x g' assembleID_def)
    moreover have "\<exists>i. lastMilli g' = clk i" by (rule exI [of _ t]) (simp add: g')
    moreover have "lastMilli g <s lastMilli g'" using new by (simp add: g')
    ultimately show ?thesis by (simp add: g')
  qed
  then show "generator_ok g'" and "x = assembleID (lastMilli g') g'"
    and "IDCID g' = IDCID g" and "machineID g' = machineID g"
    and "\<exists>i. lastMilli g' = clk i"
    and "lastMilli g <s lastMilli g' \<or>
         lastMilli g' = lastMilli g \<and> sint (sequenceID g') = sint (sequenceID g) + 1"
    by simp_all
qed

lemma Generate_failure:
  assumes "Generate clk t g = Some ((x, Some e), g', t')"
  shows "clk t <s lastMilli g" and "x = - 1" and "e = ErrClockBack" and "g' = g" and "t' = Suc t"
proof -
  consider (regress) "clk t <s lastMilli g"
    | (same) "clk t = lastMilli g" "\<not> maxSequenceID <s sequenceID g + 1"
    | (wait) "clk t = lastMilli g" "maxSequenceID <s sequenceID g + 1"
    | (new) "lastMilli g <s clk t"
    using signed.less_linear by blast
  then have "clk t <s lastMilli g \<and> x = - 1 \<and> e = ErrClockBack \<and> g' = g \<and> t' = Suc t"
  proof cases
    case regress
    with assms show ?thesis by (simp add: Generate_back)
  next
    case same
    with assms Generate_same [of clk t g] show ?thesis by simp
  next
    case wait
    with assms Generate_wait [of clk t g] show ?thesis by (auto split: option.splits)
  next
    case new
    with assms Generate_new [of g clk t] show ?thesis by simp
  qed
  then show "clk t <s lastMilli g" and "x = - 1" and "e = ErrClockBack" and "g' = g" and "t' = Suc t"
    by simp_all
qed

lemma assembleID_less:
  assumes ok: "generator_ok g" "generator_ok g'"
    and same: "IDCID g' = IDCID g" "machineID g' = machineID g"
    and safe: "shift_safe (lastMilli g)" "shift_safe (lastMilli g')"
    and lt: "lastMilli g <s lastMilli g' \<or>
         lastMilli g' = lastMilli g \<and> sint (sequenceID g') = sint (sequenceID g) + 1"
  shows "assembleID (lastMilli g) g <s assembleID (lastMilli g') g'"
proof -
  from ok have b: "0 \<le> sint (sequenceID g)" "sint (sequenceID g) \<le> 4095"
    "0 \<le> sint (sequenceID g')" "sint (sequenceID g') \<le> 4095"
    by (simp_all add: generator_ok_def maxSequenceID_eq word_sle_eq)
  from lt have "(sint (lastMilli g) - sint epoch) * 2 ^ 22 + sint (sequenceID g)
      < (sint (lastMilli g') - sint epoch) * 2 ^ 22 + sint (sequenceID g')"
    using b by (auto simp: word_sless_alt)
  then show ?thesis
    by (simp add: word_sless_alt sint_assembleID ok safe same)
qed

section \<open>The claims\<close>

subsection \<open>Construction\<close>

text \<open>
  C6. \<open>NewIDGenerator\<close> returns a generator exactly when both identities lie in
  \<open>[0, 31]\<close>. An IDC identity out of range gives \<open>ErrInvaildIDCID\<close>; a machine identity out
  of range, the IDC identity being in range, gives \<open>ErrInvaildMachineID\<close>; no generator is
  returned with an error. The generator returned has \<open>lastMilli = -1\<close>, \<open>sequenceID = 0\<close>
  and the two identities as given.
\<close>

theorem NewIDGenerator_contract:
  "((\<exists>g. NewIDGenerator idc mach = Inr g) \<longleftrightarrow>
      (0 \<le>s idc \<and> idc \<le>s 31 \<and> 0 \<le>s mach \<and> mach \<le>s 31))
   \<and> (\<not> (0 \<le>s idc \<and> idc \<le>s 31) \<longrightarrow> NewIDGenerator idc mach = Inl ErrInvaildIDCID)
   \<and> ((0 \<le>s idc \<and> idc \<le>s 31) \<and> \<not> (0 \<le>s mach \<and> mach \<le>s 31) \<longrightarrow>
        NewIDGenerator idc mach = Inl ErrInvaildMachineID)
   \<and> (\<forall>g. NewIDGenerator idc mach = Inr g \<longrightarrow>
        g = \<lparr>lastMilli = - 1, sequenceID = 0, machineID = mach, IDCID = idc\<rparr>)"
  by (auto simp: NewIDGenerator_def maxIDCID_eq maxMachineID_eq signed.not_less signed.not_le)

theorem NewIDGenerator_contract_witness:
  "NewIDGenerator 1 2 = Inr \<lparr>lastMilli = - 1, sequenceID = 0, machineID = 2, IDCID = 1\<rparr>
   \<and> \<not> ((0::int64) \<le>s 32 \<and> (32::int64) \<le>s 31) \<and> NewIDGenerator 32 2 = Inl ErrInvaildIDCID
   \<and> ((0::int64) \<le>s 1 \<and> (1::int64) \<le>s 31) \<and> \<not> ((0::int64) \<le>s - 1 \<and> (- 1::int64) \<le>s 31)
   \<and> NewIDGenerator 1 (- 1) = Inl ErrInvaildMachineID"
  using NewIDGenerator_contract [of 1 2] NewIDGenerator_contract [of 32 2]
    NewIDGenerator_contract [of 1 "- 1"]
  by (auto simp: word_sle_eq)

text \<open>
  C9. The IDC identity is checked first: when both identities are outside \<open>[0, 31]\<close>,
  the error is \<open>ErrInvaildIDCID\<close>.
\<close>

theorem NewIDGenerator_checks_IDC_first:
  "\<not> (0 \<le>s idc \<and> idc \<le>s 31) \<Longrightarrow> \<not> (0 \<le>s mach \<and> mach \<le>s 31) \<Longrightarrow>
     NewIDGenerator idc mach = Inl ErrInvaildIDCID"
  by (auto simp: NewIDGenerator_def maxIDCID_eq signed.not_less signed.not_le)

theorem NewIDGenerator_checks_IDC_first_witness:
  "\<not> ((0::int64) \<le>s 32 \<and> (32::int64) \<le>s 31) \<and> \<not> ((0::int64) \<le>s - 1 \<and> (- 1::int64) \<le>s 31)
   \<and> NewIDGenerator 32 (- 1) = Inl ErrInvaildIDCID"
proof -
  have a: "\<not> ((0::int64) \<le>s 32 \<and> (32::int64) \<le>s 31)" by (simp add: word_sle_eq)
  have b: "\<not> ((0::int64) \<le>s - 1 \<and> (- 1::int64) \<le>s 31)" by (simp add: word_sle_eq)
  show ?thesis using a b NewIDGenerator_checks_IDC_first [OF a b] by simp
qed

subsection \<open>The epoch\<close>

text \<open>
  C3, as the code has it. The constant \<open>epoch\<close> is 1669046400000, which is eight hours
  before 1669075200000, the millisecond of 2022-11-22T00:00:00Z: it is the millisecond of
  2022-11-22 00:00:00 at UTC+8, that is 2022-11-21T16:00:00Z.
\<close>

theorem epoch_value:
  "epoch = 1669046400000 \<and> epoch + 8 * 3600 * 1000 = 1669075200000"
  by (simp add: epoch_def)

text \<open>C3 as stated fails: \<open>epoch\<close> is not 1669075200000.\<close>

theorem epoch_not_utc_midnight: "epoch \<noteq> 1669075200000"
  by (simp add: epoch_def)

subsection \<open>What Generate leaves alone\<close>

text \<open>
  C8. Every call of \<open>Generate\<close> that returns, with an ID or with an error, leaves
  \<open>machineID\<close> and \<open>IDCID\<close> as they were: the generator after the call is the generator
  before it with at most \<open>lastMilli\<close> and \<open>sequenceID\<close> changed.
\<close>

theorem Generate_frame:
  assumes "Generate clk t g = Some (r, g', t')"
  shows "machineID g' = machineID g \<and> IDCID g' = IDCID g \<and>
     g' = g\<lparr>lastMilli := lastMilli g', sequenceID := sequenceID g'\<rparr>"
proof -
  consider (regress) "clk t <s lastMilli g"
    | (same) "clk t = lastMilli g" "\<not> maxSequenceID <s sequenceID g + 1"
    | (wait) "clk t = lastMilli g" "maxSequenceID <s sequenceID g + 1"
    | (new) "lastMilli g <s clk t"
    using signed.less_linear by blast
  then show ?thesis
  proof cases
    case regress
    with assms show ?thesis by (simp add: Generate_back)
  next
    case same
    with assms Generate_same [of clk t g] show ?thesis by auto
  next
    case wait
    with assms Generate_wait [of clk t g] show ?thesis by (auto split: option.splits)
  next
    case new
    with assms Generate_new [of g clk t] show ?thesis by auto
  qed
qed

theorem Generate_frame_witness:
  "Generate (stepClock (epoch + 5000) (epoch + 5000)) 0
      \<lparr>lastMilli = - 1, sequenceID = 0, machineID = 2, IDCID = 1\<rparr>
    = Some ((20971659264, None),
        \<lparr>lastMilli = epoch + 5000, sequenceID = 0, machineID = 2, IDCID = 1\<rparr>, 1)
   \<and> machineID \<lparr>lastMilli = epoch + 5000, sequenceID = 0, machineID = 2, IDCID = 1\<rparr>
       = machineID \<lparr>lastMilli = - 1, sequenceID = 0, machineID = 2, IDCID = 1\<rparr>"
proof -
  have e: "Generate (stepClock (epoch + 5000) (epoch + 5000)) 0
      \<lparr>lastMilli = - 1, sequenceID = 0, machineID = 2, IDCID = 1\<rparr>
    = Some ((20971659264, None),
        \<lparr>lastMilli = epoch + 5000, sequenceID = 0, machineID = 2, IDCID = 1\<rparr>, 1)"
    by (simp add: Generate_def now_def stepClock_def epoch_def shifts_eq maxSequenceID_eq
        word_sless_alt)
  show ?thesis using e Generate_frame [OF e] by simp
qed

subsection \<open>The fields of an ID\<close>

lemma drop_ts:
  fixes y i m s :: int64
  shows "drop_bit 22 (push_bit 22 y OR push_bit 17 (take_bit 5 i) OR push_bit 12 (take_bit 5 m) OR take_bit 12 s)
       = take_bit 42 y"
  by (rule bit_word_eqI) (auto simp: bit_simps)

lemma signed_drop_ts:
  fixes y i m s :: int64
  shows "signed_drop_bit 22 (push_bit 22 (take_bit 41 y) OR push_bit 17 (take_bit 5 i) OR push_bit 12 (take_bit 5 m) OR take_bit 12 s)
       = take_bit 41 y"
  by (rule bit_word_eqI) (auto simp: bit_simps)

lemma field_idc:
  fixes y i m s :: int64
  shows "take_bit 5 (drop_bit 17 (push_bit 22 y OR push_bit 17 (take_bit 5 i) OR push_bit 12 (take_bit 5 m) OR take_bit 12 s))
       = take_bit 5 i"
  by (rule bit_word_eqI) (auto simp: bit_simps)

lemma field_mach:
  fixes y i m s :: int64
  shows "take_bit 5 (drop_bit 12 (push_bit 22 y OR push_bit 17 (take_bit 5 i) OR push_bit 12 (take_bit 5 m) OR take_bit 12 s))
       = take_bit 5 m"
  by (rule bit_word_eqI) (auto simp: bit_simps)

lemma field_seq:
  fixes y i m s :: int64
  shows "take_bit 12 (push_bit 22 y OR push_bit 17 i OR push_bit 12 m OR s) = take_bit 12 s"
  by (rule bit_word_eqI) (auto simp: bit_simps)

lemma uint_of_int_fits:
  "0 \<le> k \<Longrightarrow> k < 2 ^ 41 \<Longrightarrow> uint (word_of_int k :: int64) = k"
  by (simp add: uint_word_of_int_eq take_bit_int_eq_self)

lemma timestamp_fits_word:
  assumes "timestamp_fits n"
  shows "take_bit 41 (n - epoch) = n - epoch"
proof -
  let ?d = "sint n - sint epoch"
  have "n - epoch = word_of_int ?d" by simp
  moreover from assms have "0 \<le> ?d" "?d < 2 ^ 41" by (simp_all add: timestamp_fits_def)
  then have "uint (word_of_int ?d :: int64) = ?d" "?d < 2 ^ 41"
    by (simp_all only: uint_of_int_fits)
  ultimately have "uint (n - epoch) < 2 ^ 41" by (simp only:)
  then show ?thesis by (rule take_bit_small)
qed

lemma take_bit_41_42:
  fixes y :: int64
  shows "take_bit 42 (take_bit 41 y) = take_bit 41 y"
  by simp

lemma assembleID_fields:
  assumes ok: "generator_ok g"
  shows "assembleID n g = push_bit 22 (n - epoch) OR push_bit 17 (take_bit 5 (IDCID g))
      OR push_bit 12 (take_bit 5 (machineID g)) OR take_bit 12 (sequenceID g)"
  by (simp add: assembleID_def shifts_eq field_bounds [OF ok])

text \<open>
  C2. Let \<open>Generate\<close> return the ID \<open>x\<close> on a generator whose identities and sequence
  number lie within their fields, the millisecond of the ID (the \<open>lastMilli\<close> the call
  leaves) being within the 41 bits of its field. Then \<open>x\<close> shifted right by 22 bits
  (arithmetically, as Go shifts an \<open>int64\<close>, or logically) plus \<open>epoch\<close> is that
  millisecond, bits 21..17 of \<open>x\<close> are the IDC identity, bits 16..12 the machine identity,
  and bits 11..0 the sequence number the call leaves. The witness is the example of the
  claim: a generator made with IDC identity 1 and machine identity 2, called first when
  the clock reads \<open>epoch + 5000\<close>, returns an ID whose fields are 5000, 1, 2 and 0.
\<close>

theorem Generate_fields_roundtrip:
  assumes ok: "generator_ok g"
    and G: "Generate clk t g = Some ((x, None), g', t')"
    and fits: "timestamp_fits (lastMilli g')"
  shows "signed_drop_bit unixMilliShift x + epoch = lastMilli g'
    \<and> drop_bit unixMilliShift x + epoch = lastMilli g'
    \<and> take_bit idcIDBits (drop_bit idcIDShift x) = IDCID g
    \<and> take_bit machineIDBits (drop_bit machineIDShift x) = machineID g
    \<and> take_bit sequenceIDBits x = sequenceID g'"
proof -
  note S = Generate_success [OF ok G]
  let ?y = "lastMilli g' - epoch"
  have x: "x = push_bit 22 ?y OR push_bit 17 (take_bit 5 (IDCID g'))
      OR push_bit 12 (take_bit 5 (machineID g')) OR take_bit 12 (sequenceID g')"
    using S(2) assembleID_fields [OF S(1)] by simp
  have y: "take_bit 41 ?y = ?y" using fits by (rule timestamp_fits_word)
  have x': "x = push_bit 22 (take_bit 41 ?y) OR push_bit 17 (take_bit 5 (IDCID g'))
      OR push_bit 12 (take_bit 5 (machineID g')) OR take_bit 12 (sequenceID g')"
    using x y by simp
  have "signed_drop_bit 22 x = take_bit 41 ?y" by (subst x') (rule signed_drop_ts)
  then have "signed_drop_bit 22 x = ?y" by (simp only: y)
  moreover have "drop_bit 22 x = take_bit 42 ?y" by (subst x) (rule drop_ts)
  then have "drop_bit 22 x = ?y" using take_bit_41_42 [of ?y] by (simp only: y)
  moreover have "take_bit 5 (drop_bit 17 x) = take_bit 5 (IDCID g')"
    by (subst x) (rule field_idc)
  then have "take_bit 5 (drop_bit 17 x) = IDCID g"
    using field_bounds [OF S(1)] S(3) by simp
  moreover have "take_bit 5 (drop_bit 12 x) = take_bit 5 (machineID g')"
    by (subst x) (rule field_mach)
  then have "take_bit 5 (drop_bit 12 x) = machineID g"
    using field_bounds [OF S(1)] S(4) by simp
  moreover have "take_bit 12 x = take_bit 12 (take_bit 12 (sequenceID g'))"
    by (subst x) (rule field_seq)
  then have "take_bit 12 x = sequenceID g'"
    by (simp only: field_bounds [OF S(1)])
  ultimately show ?thesis
    by (simp add: shifts_eq idcIDBits_def machineIDBits_def sequenceIDBits_def)
qed

theorem Generate_fields_roundtrip_witness:
  "generator_ok \<lparr>lastMilli = - 1, sequenceID = 0, machineID = 2, IDCID = 1\<rparr>
   \<and> NewIDGenerator 1 2 = Inr \<lparr>lastMilli = - 1, sequenceID = 0, machineID = 2, IDCID = 1\<rparr>
   \<and> Generate (stepClock (epoch + 5000) (epoch + 5000)) 0
        \<lparr>lastMilli = - 1, sequenceID = 0, machineID = 2, IDCID = 1\<rparr>
      = Some ((20971659264, None),
          \<lparr>lastMilli = epoch + 5000, sequenceID = 0, machineID = 2, IDCID = 1\<rparr>, 1)
   \<and> timestamp_fits (epoch + 5000)
   \<and> signed_drop_bit unixMilliShift (20971659264 :: int64) = 5000
   \<and> drop_bit unixMilliShift (20971659264 :: int64) = 5000
   \<and> take_bit idcIDBits (drop_bit idcIDShift (20971659264 :: int64)) = 1
   \<and> take_bit machineIDBits (drop_bit machineIDShift (20971659264 :: int64)) = 2
   \<and> take_bit sequenceIDBits (20971659264 :: int64) = 0"
proof -
  let ?g = "\<lparr>lastMilli = - 1, sequenceID = 0, machineID = 2, IDCID = 1\<rparr>"
  let ?g' = "\<lparr>lastMilli = epoch + 5000, sequenceID = 0, machineID = 2, IDCID = 1\<rparr>"
  have ok: "generator_ok ?g"
    by (simp add: generator_ok_def maxIDCID_eq maxMachineID_eq maxSequenceID_eq word_sle_eq)
  have new: "NewIDGenerator 1 2 = Inr ?g"
    by (simp add: NewIDGenerator_def maxIDCID_eq maxMachineID_eq word_sless_alt)
  have G: "Generate (stepClock (epoch + 5000) (epoch + 5000)) 0 ?g
      = Some ((20971659264, None), ?g', 1)"
    by (simp add: Generate_def now_def stepClock_def epoch_def shifts_eq maxSequenceID_eq
        word_sless_alt)
  have fits: "timestamp_fits (lastMilli ?g')"
    by (simp add: timestamp_fits_def epoch_def)
  have e: "(x :: int64) + epoch = epoch + 5000 \<longleftrightarrow> x = 5000" for x
    by (simp add: add.commute)
  from Generate_fields_roundtrip [OF ok G fits] ok new G fits show ?thesis
    by (simp add: e)
qed

subsection \<open>Two IDs of one millisecond\<close>

lemma seq_below_max:
  fixes s :: int64
  assumes "0 \<le>s s" and "s <s 4095"
  shows "\<not> 4095 <s s + 1" and "0 \<le>s s + 1" and "s + 1 \<le>s 4095"
proof -
  from assms have b: "0 \<le> sint s" "sint s < 4095" by (simp_all add: word_sle_eq word_sless_alt)
  then have e: "sint (s + 1) = sint s + 1"
    by (simp add: sint_word_ariths signed_take_bit_int_eq_self)
  with b show "\<not> 4095 <s s + 1" and "0 \<le>s s + 1" and "s + 1 \<le>s 4095"
    by (simp_all add: word_sle_eq word_sless_alt)
qed

text \<open>
  C7. Let two calls of \<open>Generate\<close>, one after the other on the same generator, both
  return an ID, the second reading the millisecond the first has left in \<open>lastMilli\<close>,
  and let the sequence number of the first be below 4095. Then the sequence field of the
  second ID is that of the first plus one, and the timestamp fields are the same.
\<close>

theorem Generate_same_millisecond:
  assumes ok: "generator_ok g"
    and G1: "Generate clk t g = Some ((x1, None), g1, t1)"
    and G2: "Generate clk t1 g1 = Some ((x2, None), g2, t2)"
    and same: "clk t1 = lastMilli g1"
    and below: "sequenceID g1 <s maxSequenceID"
  shows "take_bit sequenceIDBits x1 = sequenceID g1
    \<and> take_bit sequenceIDBits x2 = take_bit sequenceIDBits x1 + 1
    \<and> drop_bit unixMilliShift x2 = drop_bit unixMilliShift x1"
proof -
  note S = Generate_success [OF ok G1]
  let ?h = "g1\<lparr>sequenceID := sequenceID g1 + 1\<rparr>"
  from S(1) below have s: "\<not> maxSequenceID <s sequenceID g1 + 1"
    "0 \<le>s sequenceID g1 + 1" "sequenceID g1 + 1 \<le>s maxSequenceID"
    by (simp_all add: seq_below_max generator_ok_def maxSequenceID_eq)
  from S(1) s have okh: "generator_ok ?h" by (simp add: generator_ok_def)
  have "Generate clk t1 g1 =
      Some ((assembleID (clk t1) ?h, None), g1\<lparr>sequenceID := sequenceID g1 + 1, lastMilli := clk t1\<rparr>, Suc t1)"
    using same s(1) by (rule Generate_same)
  with G2 have "x2 = assembleID (clk t1) ?h" by simp
  then have x2: "x2 = assembleID (lastMilli g1) ?h" by (simp only: same)
  have f1: "take_bit 12 x1 = sequenceID g1"
    using field_seq [of "lastMilli g1 - epoch" "IDCID g1" "machineID g1" "sequenceID g1"]
      field_bounds [OF S(1)]
    by (simp add: S(2) assembleID_def shifts_eq)
  have f2: "take_bit 12 x2 = sequenceID g1 + 1"
    using field_seq [of "lastMilli g1 - epoch" "IDCID g1" "machineID g1" "sequenceID g1 + 1"]
      field_bounds [OF okh]
    by (simp add: x2 assembleID_def shifts_eq)
  have d1: "drop_bit 22 x1 = take_bit 42 (lastMilli g1 - epoch)"
    by (simp only: S(2) assembleID_fields [OF S(1)] drop_ts)
  have d2: "drop_bit 22 x2 = take_bit 42 (lastMilli g1 - epoch)"
    by (simp only: x2 assembleID_fields [OF okh] drop_ts)
  from f1 f2 d1 d2 show ?thesis
    by (simp add: shifts_eq sequenceIDBits_def)
qed

theorem Generate_same_millisecond_witness:
  "generator_ok \<lparr>lastMilli = - 1, sequenceID = 0, machineID = 2, IDCID = 1\<rparr>
   \<and> Generate (stepClock (epoch + 5000) (epoch + 5000)) 0
        \<lparr>lastMilli = - 1, sequenceID = 0, machineID = 2, IDCID = 1\<rparr>
      = Some ((20971659264, None),
          \<lparr>lastMilli = epoch + 5000, sequenceID = 0, machineID = 2, IDCID = 1\<rparr>, 1)
   \<and> Generate (stepClock (epoch + 5000) (epoch + 5000)) 1
        \<lparr>lastMilli = epoch + 5000, sequenceID = 0, machineID = 2, IDCID = 1\<rparr>
      = Some ((20971659265, None),
          \<lparr>lastMilli = epoch + 5000, sequenceID = 1, machineID = 2, IDCID = 1\<rparr>, 2)
   \<and> stepClock (epoch + 5000) (epoch + 5000) 1 = epoch + 5000
   \<and> (0 :: int64) <s maxSequenceID
   \<and> take_bit sequenceIDBits (20971659265 :: int64) = take_bit sequenceIDBits (20971659264 :: int64) + 1
   \<and> drop_bit unixMilliShift (20971659265 :: int64) = drop_bit unixMilliShift (20971659264 :: int64)"
proof -
  let ?c = "stepClock (epoch + 5000) (epoch + 5000)"
  let ?g = "\<lparr>lastMilli = - 1, sequenceID = 0, machineID = 2, IDCID = 1\<rparr>"
  let ?g1 = "\<lparr>lastMilli = epoch + 5000, sequenceID = 0, machineID = 2, IDCID = 1\<rparr>"
  let ?g2 = "\<lparr>lastMilli = epoch + 5000, sequenceID = 1, machineID = 2, IDCID = 1\<rparr>"
  have ok: "generator_ok ?g"
    by (simp add: generator_ok_def maxIDCID_eq maxMachineID_eq maxSequenceID_eq word_sle_eq)
  have G1: "Generate ?c 0 ?g = Some ((20971659264, None), ?g1, 1)"
    by (simp add: Generate_def now_def stepClock_def epoch_def shifts_eq maxSequenceID_eq
        word_sless_alt)
  have G2: "Generate ?c 1 ?g1 = Some ((20971659265, None), ?g2, 2)"
    by (simp add: Generate_def now_def stepClock_def epoch_def shifts_eq maxSequenceID_eq
        word_sless_alt)
  have same: "?c 1 = lastMilli ?g1" by (simp add: stepClock_def)
  have below: "sequenceID ?g1 <s maxSequenceID" by (simp add: maxSequenceID_eq word_sless_alt)
  from Generate_same_millisecond [OF ok G1 G2 same below] ok G1 G2 same below
  show ?thesis by simp
qed

subsection \<open>The value returned with ErrClockBack\<close>

lemma timestamp_fits_shift_safe: "timestamp_fits n \<Longrightarrow> shift_safe n"
  by (simp add: timestamp_fits_def shift_safe_def)

text \<open>
  C10, as the code has it. When the clock reads less than \<open>lastMilli\<close>, \<open>Generate\<close>
  returns -1 with \<open>ErrClockBack\<close>. An ID returned without error is not negative, and so
  is not -1, when the identities and the sequence number lie within their fields and the
  millisecond of the ID is within the 41 bits of its field.
\<close>

theorem Generate_clock_back_sentinel:
  "(clk t <s lastMilli g \<longrightarrow> Generate clk t g = Some ((- 1, Some ErrClockBack), g, Suc t))
   \<and> (generator_ok g \<and> Generate clk t g = Some ((x, None), g', t') \<and> timestamp_fits (lastMilli g')
        \<longrightarrow> 0 \<le>s x \<and> x \<noteq> - 1)"
proof -
  have "0 \<le>s x \<and> x \<noteq> - 1"
    if ok: "generator_ok g" and G: "Generate clk t g = Some ((x, None), g', t')"
      and fits: "timestamp_fits (lastMilli g')"
  proof -
    note S = Generate_success [OF ok G]
    from S(1) have s: "0 \<le> sint (sequenceID g')" by (simp add: generator_ok_def word_sle_eq)
    from fits have d: "0 \<le> sint (lastMilli g') - sint epoch" by (simp add: timestamp_fits_def)
    have "sint x = (sint (lastMilli g') - sint epoch) * 2 ^ 22 + uint (IDCID g') * 2 ^ 17
        + uint (machineID g') * 2 ^ 12 + sint (sequenceID g')"
      unfolding S(2) using S(1) timestamp_fits_shift_safe [OF fits] by (rule sint_assembleID)
    with s d have "0 \<le> sint x" by simp
    then show ?thesis by (auto simp: word_sle_eq)
  qed
  then show ?thesis by (simp add: Generate_back)
qed

text \<open>
  C10 as stated fails: -1 is the ID of a call that succeeds. With both identities 31 and
  the clock at the millisecond before \<open>epoch\<close>, the 4096th call in that millisecond
  (sequence number 4095) returns -1 and no error.
\<close>

theorem Generate_returns_minus_one_without_error:
  "Generate (stepClock (epoch - 1) (epoch - 1)) 0
      \<lparr>lastMilli = epoch - 1, sequenceID = 4094, machineID = 31, IDCID = 31\<rparr>
   = Some ((- 1, None),
       \<lparr>lastMilli = epoch - 1, sequenceID = 4095, machineID = 31, IDCID = 31\<rparr>, 1)"
  by (simp add: Generate_def now_def stepClock_def epoch_def shifts_eq maxSequenceID_eq
      word_sless_alt mask_eq_exp_minus_1)

theorem Generate_clock_back_sentinel_witness:
  "stepClock (epoch + 5) (epoch + 10) 0 <s epoch + 10
   \<and> Generate (stepClock (epoch + 5) (epoch + 10)) 0
        \<lparr>lastMilli = epoch + 10, sequenceID = 3, machineID = 2, IDCID = 1\<rparr>
      = Some ((- 1, Some ErrClockBack),
          \<lparr>lastMilli = epoch + 10, sequenceID = 3, machineID = 2, IDCID = 1\<rparr>, 1)
   \<and> generator_ok \<lparr>lastMilli = epoch + 10, sequenceID = 3, machineID = 2, IDCID = 1\<rparr>
   \<and> Generate (stepClock (epoch + 5) (epoch + 10)) 1
        \<lparr>lastMilli = epoch + 10, sequenceID = 3, machineID = 2, IDCID = 1\<rparr>
      = Some ((42082308, None),
          \<lparr>lastMilli = epoch + 10, sequenceID = 4, machineID = 2, IDCID = 1\<rparr>, 2)
   \<and> timestamp_fits (epoch + 10)
   \<and> (0 :: int64) \<le>s 42082308 \<and> (42082308 :: int64) \<noteq> - 1"
proof -
  let ?c = "stepClock (epoch + 5) (epoch + 10)"
  let ?g = "\<lparr>lastMilli = epoch + 10, sequenceID = 3, machineID = 2, IDCID = 1\<rparr>"
  let ?g' = "\<lparr>lastMilli = epoch + 10, sequenceID = 4, machineID = 2, IDCID = 1\<rparr>"
  have lt: "?c 0 <s lastMilli ?g" by (simp add: stepClock_def epoch_def word_sless_alt)
  have ok: "generator_ok ?g"
    by (simp add: generator_ok_def maxIDCID_eq maxMachineID_eq maxSequenceID_eq word_sle_eq)
  have G: "Generate ?c 1 ?g = Some ((42082308, None), ?g', 2)"
    by (simp add: Generate_def now_def stepClock_def epoch_def shifts_eq maxSequenceID_eq
        word_sless_alt)
  have fits: "timestamp_fits (lastMilli ?g')" by (simp add: timestamp_fits_def epoch_def)
  from Generate_clock_back_sentinel [of ?c 0 ?g 0 ?g 0]
    Generate_clock_back_sentinel [of ?c 1 ?g 42082308 ?g' 2] lt ok G fits
  show ?thesis by simp
qed

subsection \<open>Waiting for the next millisecond\<close>

lemma first_reading_past:
  fixes clk :: clock and t :: nat
  assumes "\<exists>k. lastMilli g <s clk (t + k)"
  shows "\<exists>k. lastMilli g <s clk (t + k) \<and> (\<forall>j<k. clk (t + j) \<le>s lastMilli g)"
proof -
  let ?P = "\<lambda>k. lastMilli g <s clk (t + k)"
  have "?P (LEAST k. ?P k)" using LeastI_ex [of ?P, OF assms] .
  moreover have "\<forall>j<(LEAST k. ?P k). clk (t + j) \<le>s lastMilli g"
    using not_less_Least [of _ ?P] by (auto simp: signed.not_less)
  ultimately show ?thesis by blast
qed

lemma Generate_wait_result:
  assumes same: "clk t = lastMilli g" and full: "maxSequenceID <s sequenceID g + 1"
    and past: "lastMilli g <s clk (Suc t + k)" and first: "\<forall>j<k. clk (Suc t + j) \<le>s lastMilli g"
  shows "Generate clk t g =
     Some ((assembleID (clk (Suc t + k)) (g\<lparr>sequenceID := 0\<rparr>), None),
           g\<lparr>sequenceID := 0, lastMilli := clk (Suc t + k)\<rparr>, Suc (Suc t + k))"
proof -
  let ?h = "g\<lparr>sequenceID := sequenceID g + 1\<rparr>"
  have "clk t \<le>s lastMilli ?h" by (simp add: same)
  moreover have "\<forall>j<k. clk (Suc t + j) \<le>s lastMilli ?h" using first by simp
  moreover have "lastMilli ?h <s clk (Suc t + k)" using past by simp
  ultimately have "tilNextMilli clk ?h (clk t) (Suc t) = Some (clk (Suc t + k), Suc (Suc t + k))"
    by (rule tilNextMilli_first)
  moreover have "Generate clk t g =
     (case tilNextMilli clk ?h (clk t) (Suc t) of
        None \<Rightarrow> None
      | Some (n, t') \<Rightarrow>
          Some ((assembleID n (g\<lparr>sequenceID := 0\<rparr>), None),
                g\<lparr>sequenceID := 0, lastMilli := n\<rparr>, t'))"
    using same full by (rule Generate_wait)
  ultimately show ?thesis by simp
qed

text \<open>
  C5. Let a call of \<open>Generate\<close> read the millisecond in \<open>lastMilli\<close> and the sequence
  number plus one exceed 4095, and let some later reading of the clock be past
  \<open>lastMilli\<close>. Then the call returns, without error: it reads the clock up to the first
  reading past \<open>lastMilli\<close>, returns the ID assembled from that reading and the sequence
  number 0, and leaves that reading in \<open>lastMilli\<close> and 0 in \<open>sequenceID\<close>. The sequence
  field of the ID is 0, and its timestamp field is the new millisecond when that lies
  within the field and the identities lie within theirs.
\<close>

theorem Generate_exhausted_waits:
  assumes same: "clk t = lastMilli g"
    and full: "maxSequenceID <s sequenceID g + 1"
    and adv: "\<exists>k. lastMilli g <s clk (Suc t + k)"
  shows "\<exists>k. lastMilli g <s clk (Suc t + k) \<and> (\<forall>j<k. clk (Suc t + j) \<le>s lastMilli g)
    \<and> Generate clk t g =
        Some ((assembleID (clk (Suc t + k)) (g\<lparr>sequenceID := 0\<rparr>), None),
              g\<lparr>sequenceID := 0, lastMilli := clk (Suc t + k)\<rparr>, Suc (Suc t + k))
    \<and> take_bit sequenceIDBits (assembleID (clk (Suc t + k)) (g\<lparr>sequenceID := 0\<rparr>)) = 0
    \<and> (generator_ok g \<and> timestamp_fits (clk (Suc t + k)) \<longrightarrow>
         drop_bit unixMilliShift (assembleID (clk (Suc t + k)) (g\<lparr>sequenceID := 0\<rparr>)) + epoch
           = clk (Suc t + k))"
proof -
  from first_reading_past [OF adv] obtain k
    where past: "lastMilli g <s clk (Suc t + k)"
      and first: "\<forall>j<k. clk (Suc t + j) \<le>s lastMilli g" by blast
  let ?n = "clk (Suc t + k)"
  let ?h = "g\<lparr>sequenceID := 0\<rparr>"
  have seq: "take_bit sequenceIDBits (assembleID ?n ?h) = 0"
    using field_seq [of "?n - epoch" "IDCID g" "machineID g" 0]
    by (simp add: assembleID_def shifts_eq sequenceIDBits_def)
  have ts: "drop_bit unixMilliShift (assembleID ?n ?h) + epoch = ?n"
    if ok: "generator_ok g" and fits: "timestamp_fits ?n"
  proof -
    from ok have okh: "generator_ok ?h"
      by (simp add: generator_ok_def maxSequenceID_eq word_sle_eq)
    have y: "take_bit 41 (?n - epoch) = ?n - epoch" using fits by (rule timestamp_fits_word)
    have "drop_bit 22 (assembleID ?n ?h) = take_bit 42 (?n - epoch)"
      by (simp only: assembleID_fields [OF okh] drop_ts)
    then have "drop_bit 22 (assembleID ?n ?h) = ?n - epoch"
      using take_bit_41_42 [of "?n - epoch"] by (simp only: y)
    then show ?thesis by (simp add: shifts_eq)
  qed
  from past first Generate_wait_result [OF same full past first] seq ts
  show ?thesis by blast
qed

theorem Generate_exhausted_waits_witness:
  "stepClock (epoch + 10) (epoch + 11) 0 = epoch + 10
   \<and> maxSequenceID <s (4095 :: int64) + 1
   \<and> (\<exists>k. epoch + 10 <s stepClock (epoch + 10) (epoch + 11) (Suc 0 + k))
   \<and> Generate (stepClock (epoch + 10) (epoch + 11)) 0
        \<lparr>lastMilli = epoch + 10, sequenceID = 4095, machineID = 31, IDCID = 31\<rparr>
      = Some ((50327552, None),
          \<lparr>lastMilli = epoch + 11, sequenceID = 0, machineID = 31, IDCID = 31\<rparr>, 2)"
proof -
  let ?c = "stepClock (epoch + 10) (epoch + 11)"
  let ?g = "\<lparr>lastMilli = epoch + 10, sequenceID = 4095, machineID = 31, IDCID = 31\<rparr>"
  have same: "?c 0 = lastMilli ?g" by (simp add: stepClock_def)
  have full: "maxSequenceID <s sequenceID ?g + 1" by (simp add: maxSequenceID_eq word_sless_alt)
  have gt: "lastMilli ?g <s ?c (Suc 0 + k)" for k
    by (simp add: stepClock_def epoch_def word_sless_alt)
  then have adv: "\<exists>k. lastMilli ?g <s ?c (Suc 0 + k)" by blast
  from Generate_exhausted_waits [OF same full adv] obtain k
    where first: "\<forall>j<k. ?c (Suc 0 + j) \<le>s lastMilli ?g"
      and G: "Generate ?c 0 ?g =
        Some ((assembleID (?c (Suc 0 + k)) (?g\<lparr>sequenceID := 0\<rparr>), None),
              ?g\<lparr>sequenceID := 0, lastMilli := ?c (Suc 0 + k)\<rparr>, Suc (Suc 0 + k))"
    by blast
  have "k = 0"
  proof (rule ccontr)
    assume "k \<noteq> 0"
    then have "?c (Suc 0 + 0) \<le>s lastMilli ?g" using first by blast
    with gt [of 0] show False by (simp add: signed.not_le [symmetric])
  qed
  with G have "Generate ?c 0 ?g = Some ((50327552, None),
          \<lparr>lastMilli = epoch + 11, sequenceID = 0, machineID = 31, IDCID = 31\<rparr>, 2)"
    by (simp add: stepClock_def assembleID_def shifts_eq epoch_def)
  with same full adv show ?thesis by simp
qed

subsection \<open>The error of Generate\<close>

lemma Generate_returns:
  assumes nb: "\<not> clk t <s lastMilli g"
    and adv: "\<not> maxSequenceID <s sequenceID g + 1 \<or> (\<exists>k. lastMilli g <s clk (t + k))"
  shows "\<exists>x g' t'. Generate clk t g = Some ((x, None), g', t')"
proof -
  consider (same) "clk t = lastMilli g" "\<not> maxSequenceID <s sequenceID g + 1"
    | (wait) "clk t = lastMilli g" "maxSequenceID <s sequenceID g + 1"
    | (new) "lastMilli g <s clk t"
    using nb signed.less_linear by blast
  then show ?thesis
  proof cases
    case same
    then show ?thesis using Generate_same [of clk t g] by simp
  next
    case wait
    with adv obtain k where k: "lastMilli g <s clk (t + k)" by blast
    have "k \<noteq> 0"
    proof
      assume "k = 0"
      with k wait(1) have "lastMilli g <s lastMilli g" by simp
      then show False by simp
    qed
    then obtain k' where "k = Suc k'" by (cases k) simp_all
    with k have "\<exists>k. lastMilli g <s clk (Suc t + k)" by auto
    from first_reading_past [OF this] obtain j
      where "lastMilli g <s clk (Suc t + j)" "\<forall>i<j. clk (Suc t + i) \<le>s lastMilli g" by blast
    from Generate_wait_result [OF wait this] show ?thesis by blast
  next
    case new
    then show ?thesis using Generate_new [of g clk t] by simp
  qed
qed

text \<open>
  With the sequence exhausted and a clock that never passes \<open>lastMilli\<close>, the call does
  not return.
\<close>

lemma Generate_stalled_never_returns:
  assumes same: "clk t = lastMilli g" and full: "maxSequenceID <s sequenceID g + 1"
    and stalled: "\<forall>j. clk (Suc t + j) \<le>s lastMilli g"
  shows "Generate clk t g = None"
proof -
  let ?h = "g\<lparr>sequenceID := sequenceID g + 1\<rparr>"
  have "clk t \<le>s lastMilli ?h" by (simp add: same)
  moreover have "\<forall>j. clk (Suc t + j) \<le>s lastMilli ?h" using stalled by simp
  ultimately have "tilNextMilli clk ?h (clk t) (Suc t) = None" by (rule tilNextMilli_None)
  moreover have "Generate clk t g =
     (case tilNextMilli clk ?h (clk t) (Suc t) of
        None \<Rightarrow> None
      | Some (n, t') \<Rightarrow>
          Some ((assembleID n (g\<lparr>sequenceID := 0\<rparr>), None),
                g\<lparr>sequenceID := 0, lastMilli := n\<rparr>, t'))"
    using same full by (rule Generate_wait)
  ultimately show ?thesis by simp
qed

text \<open>
  C4, as the code has it. \<open>Generate\<close> returns an error exactly when the clock reading at
  the start of the call is below \<open>lastMilli\<close>. The error is \<open>ErrClockBack\<close>, no other
  error is returned, and the generator is left as it was. So the call after a failed one,
  when its reading is not below \<open>lastMilli\<close>, returns no error; and it returns an ID when
  the sequence is not exhausted or some reading of the clock from then on is past
  \<open>lastMilli\<close>.
\<close>

theorem Generate_error_iff_clock_back:
  "((\<exists>x e g' t'. Generate clk t g = Some ((x, Some e), g', t')) \<longleftrightarrow> clk t <s lastMilli g)
   \<and> (\<forall>x e g' t'. Generate clk t g = Some ((x, Some e), g', t') \<longrightarrow>
         e = ErrClockBack \<and> g' = g \<and> t' = Suc t)
   \<and> (clk t <s lastMilli g \<and> \<not> clk (Suc t) <s lastMilli g \<longrightarrow>
         (\<forall>x e g' t'. Generate clk (Suc t) g \<noteq> Some ((x, Some e), g', t')) \<and>
         (\<not> maxSequenceID <s sequenceID g + 1 \<or> (\<exists>k. lastMilli g <s clk (Suc t + k)) \<longrightarrow>
            (\<exists>x g' t'. Generate clk (Suc t) g = Some ((x, None), g', t'))))"
proof -
  have a: "(\<exists>x e g' t'. Generate clk t g = Some ((x, Some e), g', t')) \<longleftrightarrow> clk t <s lastMilli g"
    using Generate_failure(1) [of clk t g] Generate_back [of clk t g] by blast
  have b: "\<forall>x e g' t'. Generate clk t g = Some ((x, Some e), g', t') \<longrightarrow>
         e = ErrClockBack \<and> g' = g \<and> t' = Suc t"
    using Generate_failure [of clk t g] by blast
  have c: "\<forall>x e g' t'. Generate clk (Suc t) g \<noteq> Some ((x, Some e), g', t')"
    if "\<not> clk (Suc t) <s lastMilli g"
    using that Generate_failure(1) [of clk "Suc t" g] by blast
  have d: "\<exists>x g' t'. Generate clk (Suc t) g = Some ((x, None), g', t')"
    if "\<not> clk (Suc t) <s lastMilli g"
      and "\<not> maxSequenceID <s sequenceID g + 1 \<or> (\<exists>k. lastMilli g <s clk (Suc t + k))"
    using that by (rule Generate_returns)
  from a b c d show ?thesis by blast
qed

theorem Generate_error_iff_clock_back_witness:
  "stepClock (epoch + 5) (epoch + 10) 0 <s epoch + 10
   \<and> \<not> stepClock (epoch + 5) (epoch + 10) (Suc 0) <s epoch + 10
   \<and> \<not> maxSequenceID <s (3 :: int64) + 1
   \<and> (\<exists>x e g' t'. Generate (stepClock (epoch + 5) (epoch + 10)) 0
          \<lparr>lastMilli = epoch + 10, sequenceID = 3, machineID = 2, IDCID = 1\<rparr>
        = Some ((x, Some e), g', t'))
   \<and> (\<exists>x g' t'. Generate (stepClock (epoch + 5) (epoch + 10)) (Suc 0)
          \<lparr>lastMilli = epoch + 10, sequenceID = 3, machineID = 2, IDCID = 1\<rparr>
        = Some ((x, None), g', t'))"
proof -
  let ?c = "stepClock (epoch + 5) (epoch + 10)"
  let ?g = "\<lparr>lastMilli = epoch + 10, sequenceID = 3, machineID = 2, IDCID = 1\<rparr>"
  have lt: "?c 0 <s lastMilli ?g" by (simp add: stepClock_def epoch_def word_sless_alt)
  have ge: "\<not> ?c (Suc 0) <s lastMilli ?g" by (simp add: stepClock_def)
  have room: "\<not> maxSequenceID <s sequenceID ?g + 1"
    by (simp add: maxSequenceID_eq word_sless_alt)
  from Generate_error_iff_clock_back [of ?c 0 ?g] lt ge room show ?thesis
    by simp
qed

text \<open>
  C4 as stated fails in its last part: a call after a failed one, with a reading that is
  not below \<open>lastMilli\<close>, need not succeed. Let \<open>lastMilli\<close> be \<open>epoch + 10\<close> with the
  sequence number 4095 (4096 IDs of that millisecond), and let the clock read \<open>epoch + 5\<close>
  and from then on \<open>epoch + 10\<close>. The first call returns -1 with \<open>ErrClockBack\<close> and
  leaves the generator as it was; the second reads \<open>epoch + 10\<close>, which is \<open>lastMilli\<close>,
  finds the sequence exhausted and waits for a reading past \<open>lastMilli\<close> that never comes:
  it does not return.
\<close>

theorem Generate_after_error_waits_forever:
  "Generate (stepClock (epoch + 5) (epoch + 10)) 0
      \<lparr>lastMilli = epoch + 10, sequenceID = 4095, machineID = 2, IDCID = 1\<rparr>
    = Some ((- 1, Some ErrClockBack),
        \<lparr>lastMilli = epoch + 10, sequenceID = 4095, machineID = 2, IDCID = 1\<rparr>, 1)
   \<and> \<not> stepClock (epoch + 5) (epoch + 10) 1 <s epoch + 10
   \<and> Generate (stepClock (epoch + 5) (epoch + 10)) 1
        \<lparr>lastMilli = epoch + 10, sequenceID = 4095, machineID = 2, IDCID = 1\<rparr>
      = None"
proof -
  let ?c = "stepClock (epoch + 5) (epoch + 10)"
  let ?g = "\<lparr>lastMilli = epoch + 10, sequenceID = 4095, machineID = 2, IDCID = 1\<rparr>"
  have lt: "?c 0 <s lastMilli ?g" by (simp add: stepClock_def epoch_def word_sless_alt)
  have first: "Generate ?c 0 ?g = Some ((- 1, Some ErrClockBack), ?g, 1)"
    using Generate_back [of ?c 0 ?g, OF lt] by simp
  have same: "?c (Suc 0) = lastMilli ?g" by (simp add: stepClock_def)
  have full: "maxSequenceID <s sequenceID ?g + 1"
    by (simp add: maxSequenceID_eq word_sless_alt)
  have stalled: "\<forall>j. ?c (Suc (Suc 0) + j) \<le>s lastMilli ?g" by (simp add: stepClock_def)
  have second: "Generate ?c 1 ?g = None"
    using Generate_stalled_never_returns [of ?c "Suc 0" ?g, OF same full stalled] by simp
  have ge: "\<not> ?c 1 <s epoch + 10" by (simp add: stepClock_def)
  from first ge second show ?thesis by simp
qed

subsection \<open>Successive IDs\<close>

lemma calls_increasing:
  assumes "generator_ok g" and "shift_safe (lastMilli g)" and "\<forall>i. shift_safe (clk i)"
    and "calls clk t g k = Some xs"
  shows "sorted_wrt (<s) xs \<and> (\<forall>x\<in>set xs. assembleID (lastMilli g) g <s x)"
  using assms
proof (induction k arbitrary: t g xs)
  case 0
  then show ?case by simp
next
  case (Suc k)
  from Suc.prems(4) obtain x err g' t' ys
    where G: "Generate clk t g = Some ((x, err), g', t')"
      and C: "calls clk t' g' k = Some ys"
      and xs: "xs = (if err = None then x # ys else ys)"
    by (auto split: option.splits)
  show ?case
  proof (cases err)
    case None
    note S = Generate_success [OF Suc.prems(1) G [unfolded None]]
    from S(5) Suc.prems(3) have safe: "shift_safe (lastMilli g')" by auto
    have lt: "assembleID (lastMilli g) g <s x"
      unfolding S(2)
      using Suc.prems(1) S(1) S(3) S(4) Suc.prems(2) safe S(6) by (rule assembleID_less)
    from Suc.IH [OF S(1) safe Suc.prems(3) C]
    have ih: "sorted_wrt (<s) ys" "\<forall>y\<in>set ys. x <s y" by (simp_all add: S(2))
    from ih(2) lt have "\<forall>y\<in>set ys. assembleID (lastMilli g) g <s y"
      using signed.less_trans by blast
    with ih lt show ?thesis by (simp add: xs None)
  next
    case (Some e)
    from Generate_failure(4) [OF G [unfolded Some]] have "g' = g" .
    with Suc.IH [OF Suc.prems(1) Suc.prems(2) Suc.prems(3)] C show ?thesis
      by (simp add: xs Some)
  qed
qed

lemma NewIDGenerator_ok:
  assumes "NewIDGenerator idc mach = Inr g"
  shows "generator_ok g" and "lastMilli g = - 1"
  using assms
  by (auto simp: NewIDGenerator_def generator_ok_def maxSequenceID_eq signed.not_less
      word_sle_eq split: if_splits)

lemma shift_safe_initial: "shift_safe (- 1)"
  by (simp add: shift_safe_def epoch_def)

lemma stepClock_mono: "a \<le>s b \<Longrightarrow> stepClock a b i \<le>s stepClock a b (Suc i)"
  by (simp add: stepClock_def)

text \<open>
  C1, as the code has it. Take a generator made by \<open>NewIDGenerator\<close> and any number of
  calls of \<open>Generate\<close> on it, one after the other, on a clock whose readings never
  decrease and all lie in the range where the shift of \<open>now - epoch\<close> by 22 bits does not
  overflow (\<open>- 2^41 \<le> now - epoch < 2^41\<close>). Then the IDs the calls return, in the order
  of the calls, are strictly increasing.
\<close>

theorem Generate_strictly_increasing:
  assumes "NewIDGenerator idc mach = Inr g"
    and "\<forall>i. clk i \<le>s clk (Suc i)"
    and "\<forall>i. shift_safe (clk i)"
    and "calls clk t g k = Some xs"
  shows "sorted_wrt (<s) xs"
proof -
  from assms(1) have "generator_ok g" and "shift_safe (lastMilli g)"
    by (simp_all add: NewIDGenerator_ok shift_safe_initial)
  from calls_increasing [OF this assms(3) assms(4)] show ?thesis by simp
qed

theorem Generate_strictly_increasing_witness:
  "NewIDGenerator 1 2 = Inr \<lparr>lastMilli = - 1, sequenceID = 0, machineID = 2, IDCID = 1\<rparr>
   \<and> (\<forall>i. stepClock epoch (epoch + 1) i \<le>s stepClock epoch (epoch + 1) (Suc i))
   \<and> (\<forall>i. shift_safe (stepClock epoch (epoch + 1) i))
   \<and> calls (stepClock epoch (epoch + 1)) 0
        \<lparr>lastMilli = - 1, sequenceID = 0, machineID = 2, IDCID = 1\<rparr> (Suc (Suc (Suc 0)))
      = Some [139264, 4333568, 4333569]
   \<and> sorted_wrt (<s) [139264, 4333568, 4333569 :: int64]"
proof -
  let ?c = "stepClock epoch (epoch + 1)"
  let ?g = "\<lparr>lastMilli = - 1, sequenceID = 0, machineID = 2, IDCID = 1\<rparr>"
  have new: "NewIDGenerator 1 2 = Inr ?g"
    by (simp add: NewIDGenerator_def maxIDCID_eq maxMachineID_eq word_sless_alt)
  have "epoch \<le>s epoch + 1" by (simp add: epoch_def word_sle_eq)
  then have mono: "\<forall>i. ?c i \<le>s ?c (Suc i)"
    by (simp add: stepClock_mono)
  have safe: "\<forall>i. shift_safe (?c i)"
    by (simp add: stepClock_def shift_safe_def epoch_def)
  have run: "calls ?c 0 ?g (Suc (Suc (Suc 0))) = Some [139264, 4333568, 4333569]"
    by (simp add: Generate_def now_def stepClock_def epoch_def shifts_eq maxSequenceID_eq
        word_sless_alt)
  from Generate_strictly_increasing [OF new mono safe run] new mono safe run
  show ?thesis by simp
qed

text \<open>
  C1 as stated fails where the timestamp overflows its 41 bits: on a clock that reads
  \<open>epoch + 2^41 - 1\<close> and then \<open>epoch + 2^41\<close>, a new generator returns
  \<open>2^63 - 2^22\<close> and then \<open>- 2^63\<close>.
\<close>

theorem Generate_not_increasing_on_overflow:
  "NewIDGenerator 0 0 = Inr \<lparr>lastMilli = - 1, sequenceID = 0, machineID = 0, IDCID = 0\<rparr>
   \<and> (\<forall>i. stepClock (epoch + 2199023255551) (epoch + 2199023255552) i
          \<le>s stepClock (epoch + 2199023255551) (epoch + 2199023255552) (Suc i))
   \<and> calls (stepClock (epoch + 2199023255551) (epoch + 2199023255552)) 0
        \<lparr>lastMilli = - 1, sequenceID = 0, machineID = 0, IDCID = 0\<rparr> (Suc (Suc 0))
      = Some [9223372036850581504, - 9223372036854775808]
   \<and> \<not> sorted_wrt (<s) [9223372036850581504, - 9223372036854775808 :: int64]"
proof -
  let ?c = "stepClock (epoch + 2199023255551) (epoch + 2199023255552)"
  let ?g = "\<lparr>lastMilli = - 1, sequenceID = 0, machineID = 0, IDCID = 0\<rparr>"
  have new: "NewIDGenerator 0 0 = Inr ?g"
    by (simp add: NewIDGenerator_def maxIDCID_eq maxMachineID_eq word_sless_alt)
  have "epoch + 2199023255551 \<le>s epoch + 2199023255552" by (simp add: epoch_def word_sle_eq)
  then have mono: "\<forall>i. ?c i \<le>s ?c (Suc i)"
    by (simp add: stepClock_mono)
  have run: "calls ?c 0 ?g (Suc (Suc 0)) = Some [9223372036850581504, - 9223372036854775808]"
    by (simp add: Generate_def now_def stepClock_def epoch_def shifts_eq maxSequenceID_eq
        word_sless_alt)
  have bad: "\<not> sorted_wrt (<s) [9223372036850581504, - 9223372036854775808 :: int64]"
    by (simp add: word_sless_alt)
  from new mono run bad show ?thesis by simp
qed

subsection \<open>Reaching the sequence number 4095\<close>

text \<open>
  On a clock that stays at the millisecond \<open>c\<close>, a generator whose \<open>lastMilli\<close> is \<open>c\<close>
  returns the IDs of the following sequence numbers, up to 4095.
\<close>

lemma calls_stalled:
  assumes "0 \<le> sint (sequenceID g)" and "sint (sequenceID g) + int k \<le> 4095"
    and "lastMilli g = c"
  shows "\<exists>xs. calls (stepClock c c) t g k = Some xs \<and> length xs = k \<and>
     (\<forall>j<k. xs ! j = assembleID c (g\<lparr>sequenceID := sequenceID g + of_nat (Suc j)\<rparr>))"
  using assms
proof (induction k arbitrary: g t)
  case 0
  then show ?case by simp
next
  case (Suc k)
  let ?s = "sequenceID g"
  let ?g' = "g\<lparr>sequenceID := ?s + 1\<rparr>"
  from Suc.prems have b: "0 \<le> sint ?s" "sint ?s < 4095" by simp_all
  then have e: "sint (?s + 1) = sint ?s + 1"
    by (simp add: sint_word_ariths signed_take_bit_int_eq_self)
  with b have nf: "\<not> maxSequenceID <s ?s + 1" by (simp add: maxSequenceID_eq word_sless_alt)
  have rd: "stepClock c c t = lastMilli g" by (simp add: stepClock_def Suc.prems(3))
  have G: "Generate (stepClock c c) t g =
      Some ((assembleID (stepClock c c t) ?g', None),
            g\<lparr>sequenceID := ?s + 1, lastMilli := stepClock c c t\<rparr>, Suc t)"
    using rd nf by (rule Generate_same)
  have g'': "g\<lparr>sequenceID := ?s + 1, lastMilli := c\<rparr> = ?g'"
    by (simp add: Suc.prems(3) [symmetric])
  have "0 \<le> sint (sequenceID ?g')" "sint (sequenceID ?g') + int k \<le> 4095" "lastMilli ?g' = c"
    using e b Suc.prems by simp_all
  from Suc.IH [OF this, of "Suc t"] obtain ys
    where C: "calls (stepClock c c) (Suc t) ?g' k = Some ys" and len: "length ys = k"
      and nth: "\<forall>j<k. ys ! j = assembleID c (?g'\<lparr>sequenceID := sequenceID ?g' + of_nat (Suc j)\<rparr>)"
    by blast
  let ?xs = "assembleID c ?g' # ys"
  have "calls (stepClock c c) t g (Suc k) = Some ?xs"
    using G C by (simp add: g'' stepClock_def)
  moreover have "length ?xs = Suc k" using len by simp
  moreover have "\<forall>j<Suc k. ?xs ! j = assembleID c (g\<lparr>sequenceID := ?s + of_nat (Suc j)\<rparr>)"
  proof (intro allI impI)
    fix j assume j: "j < Suc k"
    show "?xs ! j = assembleID c (g\<lparr>sequenceID := ?s + of_nat (Suc j)\<rparr>)"
    proof (cases j)
      case 0
      then show ?thesis by simp
    next
      case (Suc i)
      with j nth have "ys ! i = assembleID c (?g'\<lparr>sequenceID := sequenceID ?g' + of_nat (Suc i)\<rparr>)"
        by simp
      then show ?thesis by (simp add: Suc add.assoc)
    qed
  qed
  ultimately show ?case by blast
qed

text \<open>
  The generator of the counterexample to C10 is reached from \<open>NewIDGenerator 31 31\<close>: on
  a clock that stays at \<open>epoch - 1\<close>, the 4096th call returns -1 as its ID.
\<close>

lemma minus_one_reached:
  "NewIDGenerator 31 31 = Inr \<lparr>lastMilli = - 1, sequenceID = 0, machineID = 31, IDCID = 31\<rparr>
   \<and> (\<exists>xs. calls (stepClock (epoch - 1) (epoch - 1)) 0
          \<lparr>lastMilli = - 1, sequenceID = 0, machineID = 31, IDCID = 31\<rparr> 4096 = Some xs
        \<and> length xs = 4096 \<and> last xs = - 1)"
proof -
  let ?c = "epoch - 1"
  let ?g = "\<lparr>lastMilli = - 1, sequenceID = 0, machineID = 31, IDCID = 31\<rparr>"
  let ?g1 = "\<lparr>lastMilli = ?c, sequenceID = 0, machineID = 31, IDCID = 31\<rparr>"
  have new: "NewIDGenerator 31 31 = Inr ?g"
    by (simp add: NewIDGenerator_def maxIDCID_eq maxMachineID_eq word_sless_alt)
  have "lastMilli ?g <s stepClock ?c ?c 0"
    by (simp add: stepClock_def epoch_def word_sless_alt)
  from Generate_new [of ?g "stepClock ?c ?c" 0, OF this]
  have G: "Generate (stepClock ?c ?c) 0 ?g = Some ((assembleID ?c ?g, None), ?g1, Suc 0)"
    by (simp add: stepClock_def)
  have "0 \<le> sint (sequenceID ?g1)" "sint (sequenceID ?g1) + int 4095 \<le> 4095" "lastMilli ?g1 = ?c"
    by simp_all
  from calls_stalled [OF this, of "Suc 0"] obtain ys
    where C: "calls (stepClock ?c ?c) (Suc 0) ?g1 4095 = Some ys" and len: "length ys = 4095"
      and nth: "\<forall>j<4095. ys ! j = assembleID ?c (?g1\<lparr>sequenceID := sequenceID ?g1 + of_nat (Suc j)\<rparr>)"
    by blast
  have "calls (stepClock ?c ?c) 0 ?g (Suc 4095) = Some (assembleID ?c ?g # ys)"
    unfolding calls.simps(2) G using C by simp
  then have run: "calls (stepClock ?c ?c) 0 ?g 4096 = Some (assembleID ?c ?g # ys)"
    by simp
  from len have ne: "ys \<noteq> []" by auto
  from nth have "ys ! 4094 = assembleID ?c (?g1\<lparr>sequenceID := sequenceID ?g1 + of_nat (Suc 4094)\<rparr>)"
    by simp
  then have "ys ! 4094 = - 1"
    by (simp add: assembleID_def shifts_eq mask_eq_exp_minus_1)
  with len ne have "last ys = - 1" by (simp add: last_conv_nth)
  with ne len new run show ?thesis by simp
qed

end
